theory Spec2Isabelle
  imports Complex_Main "HOL-Library.Multiset"
begin

section \<open>Cooldown tracker (bot.py, lines 42-57)\<close>

text \<open>
  The two module-level dictionaries \<open>user_last\<close> and \<open>guild_last\<close> map a numeric id to
  the reading of the event-loop clock at the last successful \<open>/sendms\<close>. Ids are Python
  integers. Clock readings are Python floats; they are modelled as real numbers, so the
  rounding of float subtraction is abstracted away (every concrete input used below is
  a dyadic number on which the float operations are exact).
\<close>

definition USER_COOLDOWN_SECS :: real where
  "USER_COOLDOWN_SECS = 20"

definition GUILD_COOLDOWN_SECS :: real where
  "GUILD_COOLDOWN_SECS = 5"

record bot_state =
  user_last :: "int \<rightharpoonup> real"
  guild_last :: "int \<rightharpoonup> real"

text \<open>The state of a freshly started process: both dictionaries are empty.\<close>

definition init_state :: bot_state where
  "init_state = \<lparr>user_last = Map.empty, guild_last = Map.empty\<rparr>"

text \<open>Python's \<open>d.get(k, default)\<close>.\<close>

definition dict_get :: "('k \<rightharpoonup> 'v) \<Rightarrow> 'k \<Rightarrow> 'v \<Rightarrow> 'v" where
  "dict_get d k dflt = (case d k of None \<Rightarrow> dflt | Some v \<Rightarrow> v)"

text \<open>Python's \<open>int(x)\<close> on a float: truncation towards zero.\<close>

definition py_int :: "real \<Rightarrow> int" where
  "py_int x = (if 0 \<le> x then \<lfloor>x\<rfloor> else \<lceil>x\<rceil>)"

text \<open>
  \<open>is_on_user_cooldown\<close> and \<open>is_on_guild_cooldown\<close> read the dictionary and the clock;
  the clock reading \<open>asyncio.get_event_loop().time()\<close> is the parameter \<open>now\<close>.
\<close>

definition is_on_user_cooldown :: "bot_state \<Rightarrow> real \<Rightarrow> int \<Rightarrow> int option" where
  "is_on_user_cooldown s now user_id =
     (let last = dict_get (user_last s) user_id 0;
          remaining = USER_COOLDOWN_SECS - (now - last)
      in if remaining > 0 then Some (py_int remaining) else None)"

definition is_on_guild_cooldown :: "bot_state \<Rightarrow> real \<Rightarrow> int \<Rightarrow> int option" where
  "is_on_guild_cooldown s now guild_id =
     (let last = dict_get (guild_last s) guild_id 0;
          remaining = GUILD_COOLDOWN_SECS - (now - last)
      in if remaining > 0 then Some (py_int remaining) else None)"

text \<open>A state in which user 7 and guild 9 acted at clock reading 100.\<close>

definition acted_state :: bot_state where
  "acted_state = \<lparr>user_last = [7 \<mapsto> 100], guild_last = [9 \<mapsto> 100]\<rparr>"

section \<open>Python strings\<close>

text \<open>
  A Python \<open>str\<close> is a sequence of Unicode code points; slicing and \<open>len\<close> count code
  points. It is modelled as the list of its code points. \<open>ascii\<close> embeds a literal.
\<close>

type_synonym ustr = "nat list"

definition ascii :: "string \<Rightarrow> ustr" where
  "ascii s = map of_char s"

text \<open>
  The code points that CPython's \<open>str.isspace\<close> accepts, which are the ones
  \<open>str.strip()\<close> removes: U+0009-000D, U+001C-0020, U+0085, U+00A0, U+1680,
  U+2000-200A, U+2028, U+2029, U+202F, U+205F, U+3000.
\<close>

definition is_space :: "nat \<Rightarrow> bool" where
  "is_space c \<longleftrightarrow>
     (9 \<le> c \<and> c \<le> 13) \<or> (28 \<le> c \<and> c \<le> 32) \<or> c = 133 \<or> c = 160 \<or> c = 5760 \<or>
     (8192 \<le> c \<and> c \<le> 8202) \<or> c = 8232 \<or> c = 8233 \<or> c = 8239 \<or> c = 8287 \<or>
     c = 12288"

definition strip :: "ustr \<Rightarrow> ustr" where
  "strip m = rev (dropWhile is_space (rev (dropWhile is_space m)))"

text \<open>Python's \<open>str(n)\<close> for an integer: decimal digits, with a sign when negative.\<close>

fun digits :: "nat \<Rightarrow> ustr" where
  "digits n = (if n < 10 then [48 + n] else digits (n div 10) @ [48 + n mod 10])"

definition str_int :: "int \<Rightarrow> ustr" where
  "str_int i = (if i < 0 then 45 # digits (nat (- i)) else digits (nat i))"

text \<open>Python's \<open>sep.join(xs)\<close>.\<close>

fun join :: "ustr \<Rightarrow> ustr list \<Rightarrow> ustr" where
  "join sep [] = []"
| "join sep [x] = x"
| "join sep (x # y # ys) = x @ sep @ join sep (y # ys)"

section \<open>What a handler does to the outside world\<close>

text \<open>
  A call into the platform (\<open>channel.send\<close>, \<open>member.edit\<close>) returns, raises
  \<open>discord.Forbidden\<close>, or raises another \<open>Exception\<close> whose \<open>str\<close> is carried.
\<close>

datatype call_result = Done | Forbidden | Error ustr

text \<open>
  A guild member as the handlers read it: \<open>id\<close>, \<open>bot\<close>, \<open>display_name\<close>,
  \<open>top_role.position\<close> and \<open>guild_permissions.manage_nicknames\<close>.
\<close>

record member =
  m_id :: int
  m_bot :: bool
  m_display_name :: ustr
  m_top_role_position :: int
  m_manage_nicknames :: bool

text \<open>
  The effects of a handler, in the order it performs them:
  \<open>Respond t\<close> is \<open>interaction.response.send_message(t, ephemeral=True)\<close>,
  \<open>Defer\<close> is \<open>interaction.response.defer(thinking=True)\<close>,
  \<open>Followup t e\<close> is \<open>interaction.followup.send(t, ephemeral=e)\<close>,
  \<open>ChannelSend t r\<close> is \<open>interaction.channel.send(t)\<close> with what the call did,
  \<open>Edit m nick reason r\<close> is \<open>m.edit(nick=nick, reason=reason)\<close> with what the call did,
  \<open>Sleep d\<close> is \<open>asyncio.sleep(d)\<close>.
  The responses and follow-ups to the invoking user are taken to return normally.
\<close>

datatype event =
    Respond ustr
  | Defer
  | Followup ustr bool
  | ChannelSend ustr call_result
  | Edit member ustr ustr call_result
  | Sleep real

text \<open>The channel messages that were delivered, and the ones whose send was called.\<close>

fun delivered :: "event list \<Rightarrow> ustr list" where
  "delivered [] = []"
| "delivered (ChannelSend t Done # es) = t # delivered es"
| "delivered (e # es) = delivered es"

fun attempted :: "event list \<Rightarrow> ustr list" where
  "attempted [] = []"
| "attempted (ChannelSend t r # es) = t # attempted es"
| "attempted (e # es) = attempted es"

text \<open>What the invoking user is shown after the acknowledgement.\<close>

fun followups :: "event list \<Rightarrow> ustr list" where
  "followups [] = []"
| "followups (Followup t e # es) = t # followups es"
| "followups (e # es) = followups es"

section \<open>The /sendms command (bot.py, lines 64-106)\<close>

text \<open>
  One invocation: the invoking user's id, \<open>interaction.guild_id\<close> (none outside a
  guild), the three payloads, the successive readings of the event-loop clock made
  during the invocation, and what the \<open>i\<close>-th call of \<open>channel.send\<close> does.
\<close>

record sendms_call =
  sm_user_id :: int
  sm_guild_id :: "int option"
  sm_m1 :: ustr
  sm_m2 :: "ustr option"
  sm_m3 :: "ustr option"
  sm_clock :: "nat \<Rightarrow> real"
  sm_send :: "nat \<Rightarrow> call_result"

text \<open>\<open>interaction.guild_id or 0\<close>: none and 0 are both falsy.\<close>

fun guild_id_or_0 :: "int option \<Rightarrow> int" where
  "guild_id_or_0 None = 0"
| "guild_id_or_0 (Some g) = (if g = 0 then 0 else g)"

text \<open>The truth value of an \<open>Optional[int]\<close> in \<open>if user_wait:\<close>.\<close>

fun truthy :: "int option \<Rightarrow> bool" where
  "truthy None = False"
| "truthy (Some w) = (w \<noteq> 0)"

fun str_opt_int :: "int option \<Rightarrow> ustr" where
  "str_opt_int None = ascii ''None''"
| "str_opt_int (Some w) = str_int w"

definition too_often_msg :: "int option \<Rightarrow> ustr" where
  "too_often_msg w =
     ascii ''You'' @ [39] @ ascii ''re doing that too often '' @ [8212] @
     ascii '' try again in '' @ str_opt_int w @ ascii ''s.''"

definition guild_busy_msg :: ustr where
  "guild_busy_msg = ascii ''Server is handling requests. Try again in a moment.''"

definition no_valid_msg :: ustr where
  "no_valid_msg = ascii ''No valid messages provided.''"

definition sending_msg :: ustr where
  "sending_msg = ascii ''Sending message(s)...''"

definition sent_msg :: "nat \<Rightarrow> ustr" where
  "sent_msg n = [9989] @ ascii '' Sent '' @ digits n @ ascii '' message(s).''"

definition no_permission_msg :: ustr where
  "no_permission_msg =
     ascii ''I don'' @ [39] @ ascii ''t have permission to send messages in that channel.''"

definition send_failed_msg :: "ustr \<Rightarrow> ustr" where
  "send_failed_msg e = ascii ''Failed to send messages: '' @ e"

text \<open>
  The loop of lines 83-86 over \<open>(m1, m2, m3)\<close>, with the list \<open>msgs\<close> built so far:
  a payload is kept when \<open>m and m.strip()\<close> is truthy, and appended as \<open>m[:2000]\<close>.
\<close>

fun build_msgs :: "ustr list \<Rightarrow> ustr option list \<Rightarrow> ustr list" where
  "build_msgs msgs [] = msgs"
| "build_msgs msgs (None # ms) = build_msgs msgs ms"
| "build_msgs msgs (Some m # ms) =
     build_msgs (if m \<noteq> [] \<and> strip m \<noteq> [] then msgs @ [take 2000 m] else msgs) ms"

text \<open>
  The loop of lines 95-98 from index \<open>i\<close> on, \<open>n\<close> being \<open>len(msgs)\<close>: the events, and
  \<open>Done\<close> or the exception that left the loop.
\<close>

fun send_loop :: "(nat \<Rightarrow> call_result) \<Rightarrow> nat \<Rightarrow> nat \<Rightarrow> ustr list \<Rightarrow> event list \<times> call_result" where
  "send_loop res n i [] = ([], Done)"
| "send_loop res n i (content # rest) =
     (case res i of
        Done \<Rightarrow>
          (let pause = (if int i < int n - 1 then [Sleep (7 / 10)] else []);
               (tr, r) = send_loop res n (Suc i) rest
           in (ChannelSend content Done # pause @ tr, r))
      | Forbidden \<Rightarrow> ([ChannelSend content Forbidden], Forbidden)
      | Error e \<Rightarrow> ([ChannelSend content (Error e)], Error e))"

definition sendms :: "sendms_call \<Rightarrow> bot_state \<Rightarrow> bot_state \<times> event list" where
  "sendms c s =
     (let uid = sm_user_id c;
          gid = guild_id_or_0 (sm_guild_id c);
          user_wait = is_on_user_cooldown s (sm_clock c 0) uid
      in if truthy user_wait then (s, [Respond (too_often_msg user_wait)])
      else
        let guild_wait = is_on_guild_cooldown s (sm_clock c 1) gid
        in if truthy guild_wait then (s, [Respond guild_busy_msg])
        else
          let msgs = build_msgs [] [Some (sm_m1 c), sm_m2 c, sm_m3 c]
          in if msgs = [] then (s, [Respond no_valid_msg])
          else
            (case send_loop (sm_send c) (length msgs) 0 msgs of
               (tr, Done) \<Rightarrow>
                 (s\<lparr>user_last := (user_last s)(uid \<mapsto> sm_clock c 2),
                    guild_last := (guild_last s)(gid \<mapsto> sm_clock c 3)\<rparr>,
                  Respond sending_msg # tr @ [Followup (sent_msg (length msgs)) True])
             | (tr, Forbidden) \<Rightarrow>
                 (s, Respond sending_msg # tr @ [Followup no_permission_msg True])
             | (tr, Error e) \<Rightarrow>
                 (s, Respond sending_msg # tr @ [Followup (send_failed_msg e) True])))"

text \<open>The spec's words for the normalization: blank payloads, and what is retained.\<close>

definition blank :: "ustr \<Rightarrow> bool" where
  "blank m \<longleftrightarrow> list_all is_space m"

fun present :: "'a option list \<Rightarrow> 'a list" where
  "present [] = []"
| "present (None # ps) = present ps"
| "present (Some p # ps) = p # present ps"

definition normalized :: "ustr option list \<Rightarrow> ustr list" where
  "normalized ps = map (take 2000) (filter (\<lambda>m. \<not> blank m) (present ps))"

definition long_payload :: ustr where
  "long_payload = replicate 2001 97"

definition long_call :: sendms_call where
  "long_call = \<lparr>sm_user_id = 1, sm_guild_id = Some 9, sm_m1 = long_payload,
     sm_m2 = None, sm_m3 = Some [32, 9],
     sm_clock = (\<lambda>k. 100), sm_send = (\<lambda>i. Done)\<rparr>"

definition denied_call :: sendms_call where
  "denied_call = \<lparr>sm_user_id = 1, sm_guild_id = Some 9, sm_m1 = ascii ''a'',
     sm_m2 = Some (ascii ''b''), sm_m3 = Some (ascii ''c''),
     sm_clock = (\<lambda>k. 100), sm_send = (\<lambda>i. if i = 1 then Forbidden else Done)\<rparr>"

definition dm_call_a :: sendms_call where
  "dm_call_a = \<lparr>sm_user_id = 1, sm_guild_id = None, sm_m1 = ascii ''hi'',
     sm_m2 = None, sm_m3 = None,
     sm_clock = (\<lambda>k. 100), sm_send = (\<lambda>i. Done)\<rparr>"

definition dm_call_b :: sendms_call where
  "dm_call_b = \<lparr>sm_user_id = 2, sm_guild_id = None, sm_m1 = ascii ''yo'',
     sm_m2 = None, sm_m3 = None,
     sm_clock = (\<lambda>k. 102), sm_send = (\<lambda>i. Done)\<rparr>"

text \<open>
  The first \<open>/sendms\<close> of user 7 in a process whose clock reads 0, and a
  \<open>/sendms\<close> of user 7 in guild 9 with the clock at 119.5.
\<close>

definition boot_call :: sendms_call where
  "boot_call = \<lparr>sm_user_id = 7, sm_guild_id = Some 9, sm_m1 = ascii ''hi'',
     sm_m2 = None, sm_m3 = None,
     sm_clock = (\<lambda>k. 0), sm_send = (\<lambda>i. Done)\<rparr>"

definition late_call :: sendms_call where
  "late_call = \<lparr>sm_user_id = 7, sm_guild_id = Some 9, sm_m1 = ascii ''hi'',
     sm_m2 = None, sm_m3 = None,
     sm_clock = (\<lambda>k. 239 / 2), sm_send = (\<lambda>i. Done)\<rparr>"

section \<open>The /changenick command (bot.py, lines 108-177)\<close>

text \<open>A guild as the handler reads it: \<open>owner_id\<close> and the cached member list.\<close>

record guild =
  g_owner_id :: int
  g_members :: "member list"

text \<open>\<open>guild.get_member(id)\<close>: the cached member with that id, if any.\<close>

definition get_member :: "guild \<Rightarrow> int \<Rightarrow> member option" where
  "get_member g i = find (\<lambda>m. m_id m = i) (g_members g)"

text \<open>
  One invocation: \<open>interaction.guild\<close>, the invoking user (id, \<open>str\<close>, and
  \<open>guild_permissions.manage_nicknames\<close>), \<open>bot.user.id\<close>, the three arguments, and
  what \<open>m.edit\<close> does for the target at position \<open>i\<close> of the target list.
\<close>

record changenick_call =
  cn_guild :: "guild option"
  cn_user_id :: int
  cn_user_str :: ustr
  cn_user_manage_nicknames :: bool
  cn_bot_user_id :: int
  cn_nickname :: ustr
  cn_member :: "member option"
  cn_change_many :: bool
  cn_edit :: "nat \<Rightarrow> call_result"

definition MAX_CHANGE :: nat where
  "MAX_CHANGE = 50"

definition server_only_msg :: ustr where
  "server_only_msg = ascii ''This command must be used in a server.''"

definition invoker_needs_msg :: ustr where
  "invoker_needs_msg =
     ascii ''You must have Manage Nicknames (or be server owner) to use this command.''"

definition bot_needs_msg :: ustr where
  "bot_needs_msg = ascii ''I need the Manage Nicknames permission to do this.''"

definition specify_member_msg :: ustr where
  "specify_member_msg = ascii ''You must specify a member unless change_many is true.''"

definition owner_reason :: ustr where
  "owner_reason = ascii ''Server owner (cannot change)''"

definition hierarchy_reason :: ustr where
  "hierarchy_reason = ascii ''Role is equal or higher than bot''"

definition forbidden_reason :: ustr where
  "forbidden_reason = ascii ''Forbidden''"

definition error_reason :: "ustr \<Rightarrow> ustr" where
  "error_reason e = ascii ''Error: '' @ e"

definition audit_reason :: "changenick_call \<Rightarrow> ustr" where
  "audit_reason c = ascii ''Changed by '' @ cn_user_str c"

text \<open>Lines 137-149: the target list, or none when no member was given.\<close>

definition resolve_targets :: "changenick_call \<Rightarrow> guild \<Rightarrow> member list option" where
  "resolve_targets c g =
     (if cn_change_many c then
        (let members = filter (\<lambda>m. \<not> m_bot m \<and> m_id m \<noteq> cn_bot_user_id c) (g_members g);
             members = (if length members > MAX_CHANGE then take MAX_CHANGE members
                        else members)
         in Some members)
      else
        (case cn_member c of
           None \<Rightarrow> None
         | Some member \<Rightarrow> Some [member]))"

text \<open>
  Lines 154-169: the loop over the targets from position \<open>i\<close> on, with the lists
  \<open>success\<close> and \<open>failed\<close> and the events so far. The two \<open>continue\<close> branches skip
  the edit and the sleep.
\<close>

fun nick_loop ::
  "changenick_call \<Rightarrow> guild \<Rightarrow> member \<Rightarrow> nat \<Rightarrow> member list \<Rightarrow>
   ustr list \<Rightarrow> (ustr \<times> ustr) list \<Rightarrow> event list \<Rightarrow>
   ustr list \<times> (ustr \<times> ustr) list \<times> event list" where
  "nick_loop c g bot_member i [] success failed tr = (success, failed, tr)"
| "nick_loop c g bot_member i (m # ms) success failed tr =
     (if m_id m = g_owner_id g then
        nick_loop c g bot_member (Suc i) ms success
          (failed @ [(m_display_name m, owner_reason)]) tr
      else if m_top_role_position bot_member \<le> m_top_role_position m then
        nick_loop c g bot_member (Suc i) ms success
          (failed @ [(m_display_name m, hierarchy_reason)]) tr
      else
        (case cn_edit c i of
           Done \<Rightarrow>
             nick_loop c g bot_member (Suc i) ms (success @ [m_display_name m]) failed
               (tr @ [Edit m (cn_nickname c) (audit_reason c) Done, Sleep (1 / 4)])
         | Forbidden \<Rightarrow>
             nick_loop c g bot_member (Suc i) ms success
               (failed @ [(m_display_name m, forbidden_reason)])
               (tr @ [Edit m (cn_nickname c) (audit_reason c) Forbidden, Sleep (1 / 4)])
         | Error e \<Rightarrow>
             nick_loop c g bot_member (Suc i) ms success
               (failed @ [(m_display_name m, error_reason e)])
               (tr @ [Edit m (cn_nickname c) (audit_reason c) (Error e), Sleep (1 / 4)])))"

text \<open>Lines 171-175: the summary text.\<close>

definition failed_line :: "ustr \<times> ustr \<Rightarrow> ustr" where
  "failed_line p = ascii ''- '' @ fst p @ ascii '' '' @ [8212] @ ascii '' '' @ snd p"

definition summary :: "ustr list \<Rightarrow> (ustr \<times> ustr) list \<Rightarrow> ustr" where
  "summary success failed =
     (let out = [9989] @ ascii '' Done. Changed '' @ digits (length success) @
                ascii '' nickname(s). Failed: '' @ digits (length failed) @ ascii ''.'' @ [10];
          out = (if success \<noteq> [] then
                   out @ ascii ''Changed: '' @ join (ascii '', '') (take 20 success) @
                   (if length success > 20 then [10] else [10])
                 else out);
          out = (if failed \<noteq> [] then
                   out @ ascii ''Failed:'' @ [10] @ join [10] (map failed_line (take 40 failed))
                 else out)
      in out)"

text \<open>
  The handler: its events, and the lists \<open>success\<close> and \<open>failed\<close> as they stand when it
  returns (empty when the loop is never reached).
\<close>

definition changenick ::
  "changenick_call \<Rightarrow> event list \<times> ustr list \<times> (ustr \<times> ustr) list" where
  "changenick c =
     (case cn_guild c of
        None \<Rightarrow> ([Respond server_only_msg], [], [])
      | Some g \<Rightarrow>
          if \<not> (cn_user_manage_nicknames c \<or> cn_user_id c = g_owner_id g)
          then ([Respond invoker_needs_msg], [], [])
          else
            (case get_member g (cn_bot_user_id c) of
               None \<Rightarrow> ([Respond bot_needs_msg], [], [])
             | Some bot_member \<Rightarrow>
                 if \<not> m_manage_nicknames bot_member
                 then ([Respond bot_needs_msg], [], [])
                 else
                   (case resolve_targets c g of
                      None \<Rightarrow> ([Defer, Followup specify_member_msg True], [], [])
                    | Some targets \<Rightarrow>
                        (case nick_loop c g bot_member 0 targets [] [] [] of
                           (success, failed, tr) \<Rightarrow>
                             (Defer # tr @ [Followup (summary success failed) False],
                              success, failed)))))"

text \<open>The members on which \<open>edit\<close> was called.\<close>

fun edited :: "event list \<Rightarrow> member list" where
  "edited [] = []"
| "edited (Edit m nick reason r # es) = m # edited es"
| "edited (e # es) = edited es"

text \<open>
  The three guards of lines 119-133 all pass, with guild \<open>g\<close> and bot member \<open>bm\<close>.
\<close>

definition accepted :: "changenick_call \<Rightarrow> guild \<Rightarrow> member \<Rightarrow> bool" where
  "accepted c g bm \<longleftrightarrow>
     cn_guild c = Some g \<and>
     (cn_user_manage_nicknames c \<or> cn_user_id c = g_owner_id g) \<and>
     get_member g (cn_bot_user_id c) = Some bm \<and> m_manage_nicknames bm"

text \<open>
  The outcome for the target \<open>m\<close> at position \<open>i\<close>, read off the rules of section 4.3:
  whether it is bypassed by a hard rule, whether its nickname is changed, and the
  reason recorded when it is not.
\<close>

definition bypassed :: "guild \<Rightarrow> member \<Rightarrow> member \<Rightarrow> bool" where
  "bypassed g bm m \<longleftrightarrow>
     m_id m = g_owner_id g \<or> m_top_role_position bm \<le> m_top_role_position m"

definition changed :: "changenick_call \<Rightarrow> guild \<Rightarrow> member \<Rightarrow> nat \<times> member \<Rightarrow> bool" where
  "changed c g bm p \<longleftrightarrow> \<not> bypassed g bm (snd p) \<and> cn_edit c (fst p) = Done"

definition failure_reason :: "changenick_call \<Rightarrow> guild \<Rightarrow> member \<Rightarrow> nat \<times> member \<Rightarrow> ustr" where
  "failure_reason c g bm p =
     (if m_id (snd p) = g_owner_id g then owner_reason
      else if m_top_role_position bm \<le> m_top_role_position (snd p) then hierarchy_reason
      else (case cn_edit c (fst p) of
              Done \<Rightarrow> []
            | Forbidden \<Rightarrow> forbidden_reason
            | Error e \<Rightarrow> error_reason e))"

definition failed_entry ::
  "changenick_call \<Rightarrow> guild \<Rightarrow> member \<Rightarrow> nat \<times> member \<Rightarrow> ustr \<times> ustr" where
  "failed_entry c g bm p = (m_display_name (snd p), failure_reason c g bm p)"

text \<open>The spec's words for the "change many" target set before the cap.\<close>

definition eligible :: "changenick_call \<Rightarrow> guild \<Rightarrow> member list" where
  "eligible c g = filter (\<lambda>m. \<not> m_bot m \<and> m_id m \<noteq> cn_bot_user_id c) (g_members g)"

text \<open>A small guild: the owner, the bot, a member below the bot and one at its rank.\<close>

definition olga :: member where
  "olga = \<lparr>m_id = 10, m_bot = False, m_display_name = ascii ''Olga'',
     m_top_role_position = 9, m_manage_nicknames = True\<rparr>"

definition robo :: member where
  "robo = \<lparr>m_id = 99, m_bot = True, m_display_name = ascii ''Robo'',
     m_top_role_position = 5, m_manage_nicknames = True\<rparr>"

definition alice :: member where
  "alice = \<lparr>m_id = 11, m_bot = False, m_display_name = ascii ''Alice'',
     m_top_role_position = 1, m_manage_nicknames = False\<rparr>"

definition bob :: member where
  "bob = \<lparr>m_id = 12, m_bot = False, m_display_name = ascii ''Bob'',
     m_top_role_position = 5, m_manage_nicknames = False\<rparr>"

definition demo_guild :: guild where
  "demo_guild = \<lparr>g_owner_id = 10, g_members = [olga, robo, alice, bob]\<rparr>"

definition demo_call :: changenick_call where
  "demo_call = \<lparr>cn_guild = Some demo_guild, cn_user_id = 10, cn_user_str = ascii ''olga'',
     cn_user_manage_nicknames = True, cn_bot_user_id = 99, cn_nickname = ascii ''nick'',
     cn_member = None, cn_change_many = True, cn_edit = (\<lambda>i. Done)\<rparr>"

definition crowd :: "nat \<Rightarrow> member list" where
  "crowd n = map (\<lambda>k. \<lparr>m_id = int k, m_bot = False, m_display_name = digits k,
     m_top_role_position = 0, m_manage_nicknames = False\<rparr>) [1..<Suc n]"

definition crowd_guild :: guild where
  "crowd_guild = \<lparr>g_owner_id = 1, g_members = robo # crowd 51\<rparr>"

definition crowd_call :: changenick_call where
  "crowd_call = \<lparr>cn_guild = Some crowd_guild, cn_user_id = 1, cn_user_str = ascii ''one'',
     cn_user_manage_nicknames = False, cn_bot_user_id = 99, cn_nickname = ascii ''nick'',
     cn_member = Some olga, cn_change_many = True, cn_edit = (\<lambda>i. Done)\<rparr>"

section \<open>Properties of the cooldown tracker\<close>

text \<open>
  Where the two checks do return none: for a key with no entry once the clock reads at
  least the window, and for a key with an entry once the window has fully elapsed.
\<close>

lemma never_seen_clear_after_window:
  "user_last s k = None \<Longrightarrow> USER_COOLDOWN_SECS \<le> now \<Longrightarrow> is_on_user_cooldown s now k = None"
  "guild_last s k = None \<Longrightarrow> GUILD_COOLDOWN_SECS \<le> now \<Longrightarrow>
     is_on_guild_cooldown s now k = None"
  by (simp_all add: is_on_user_cooldown_def is_on_guild_cooldown_def dict_get_def)

lemma recorded_expired_clear:
  "user_last s k = Some t \<Longrightarrow> USER_COOLDOWN_SECS - (now - t) \<le> 0 \<Longrightarrow>
     is_on_user_cooldown s now k = None"
  "guild_last s k = Some t \<Longrightarrow> GUILD_COOLDOWN_SECS - (now - t) \<le> 0 \<Longrightarrow>
     is_on_guild_cooldown s now k = None"
  by (simp_all add: is_on_user_cooldown_def is_on_guild_cooldown_def dict_get_def)

text \<open>
  C1: a scope key on which no action was ever recorded is not on cooldown, whatever
  the clock reads. The code breaks this while the clock reads less than the window: a
  missing entry is read with the default 0, as a last action at clock reading 0. In
  the freshly started process, at clock reading 0, the check returns 20 for user 7 and
  5 for guild 9, neither of which has an entry, and the first-ever \<open>/sendms\<close> of user 7
  is refused with the "too often" message and sends nothing.
\<close>

theorem never_seen_refused_below_window:
  "user_last init_state 7 = None \<and> guild_last init_state 9 = None \<and>
   is_on_user_cooldown init_state 0 7 = Some 20 \<and>
   is_on_guild_cooldown init_state 0 9 = Some 5 \<and>
   sendms boot_call init_state = (init_state, [Respond (too_often_msg (Some 20))]) \<and>
   attempted (snd (sendms boot_call init_state)) = []"
proof -
  have c: "is_on_user_cooldown init_state 0 7 = Some 20"
    "is_on_guild_cooldown init_state 0 9 = Some 5"
    by (simp_all add: init_state_def is_on_user_cooldown_def is_on_guild_cooldown_def
        dict_get_def USER_COOLDOWN_SECS_def GUILD_COOLDOWN_SECS_def py_int_def)
  have f: "sm_user_id boot_call = 7" "sm_clock boot_call 0 = 0"
    by (simp_all add: boot_call_def)
  have s: "sendms boot_call init_state = (init_state, [Respond (too_often_msg (Some 20))])"
    by (simp add: sendms_def Let_def f c del: build_msgs.simps)
  have e: "user_last init_state 7 = None" "guild_last init_state 9 = None"
    by (simp_all add: init_state_def)
  from e c s show ?thesis by simp
qed

text \<open>
  C2: with a recorded last action and \<open>remaining = window - (now - last)\<close> strictly
  positive, the check returns the ceiling of \<open>remaining\<close>, a strictly positive integer.
  The code breaks this because it truncates with \<open>int\<close>: user 7 and guild 9 acted at
  clock reading 100; at 100.5, with 19.5 seconds remaining, the check returns 19 where
  the ceiling is 20; at 119.5, with 0.5 seconds remaining, it returns 0. The handler
  takes that 0 for "not on cooldown": the \<open>/sendms\<close> of user 7 at clock reading 119.5,
  inside the 20 second window, is not refused, delivers its message and records the
  action.
\<close>

theorem last_second_not_refused:
  "user_last acted_state 7 = Some 100 \<and>
   USER_COOLDOWN_SECS - (201 / 2 - 100) > 0 \<and>
   is_on_user_cooldown acted_state (201 / 2) 7 = Some 19 \<and>
   \<lceil>USER_COOLDOWN_SECS - (201 / 2 - 100)\<rceil> = 20 \<and>
   USER_COOLDOWN_SECS - (239 / 2 - 100) > 0 \<and>
   is_on_user_cooldown acted_state (239 / 2) 7 = Some 0 \<and>
   \<lceil>USER_COOLDOWN_SECS - (239 / 2 - 100)\<rceil> = 1 \<and>
   delivered (snd (sendms late_call acted_state)) = [ascii ''hi''] \<and>
   user_last (fst (sendms late_call acted_state)) 7 = Some (239 / 2)"
proof -
  have h: "\<lceil>1 / 2 :: real\<rceil> = 1"
    by (simp add: ceiling_eq_iff)
  have a: "user_last acted_state 7 = Some 100 \<and>
   USER_COOLDOWN_SECS - (201 / 2 - 100) > 0 \<and>
   is_on_user_cooldown acted_state (201 / 2) 7 = Some 19 \<and>
   \<lceil>USER_COOLDOWN_SECS - (201 / 2 - 100)\<rceil> = 20 \<and>
   USER_COOLDOWN_SECS - (239 / 2 - 100) > 0 \<and>
   is_on_user_cooldown acted_state (239 / 2) 7 = Some 0 \<and>
   \<lceil>USER_COOLDOWN_SECS - (239 / 2 - 100)\<rceil> = 1"
    by (simp add: acted_state_def is_on_user_cooldown_def dict_get_def
        USER_COOLDOWN_SECS_def py_int_def h)
  have s: "sendms late_call acted_state =
      (\<lparr>user_last = [7 \<mapsto> 239 / 2], guild_last = [9 \<mapsto> 239 / 2]\<rparr>,
       [Respond sending_msg, ChannelSend (ascii ''hi'') Done, Followup (sent_msg 1) True])"
    by (simp add: sendms_def late_call_def acted_state_def is_on_user_cooldown_def
        is_on_guild_cooldown_def dict_get_def USER_COOLDOWN_SECS_def
        GUILD_COOLDOWN_SECS_def py_int_def ascii_def strip_def is_space_def)
  have d: "delivered (snd (sendms late_call acted_state)) = [ascii ''hi'']"
    "user_last (fst (sendms late_call acted_state)) 7 = Some (239 / 2)"
    by (simp_all add: s ascii_def)
  from a d show ?thesis by simp
qed

section \<open>Properties of the /sendms command\<close>

lemma dropWhile_nonempty_has:
  "dropWhile P xs \<noteq> [] \<Longrightarrow> \<exists>x\<in>set (dropWhile P xs). \<not> P x"
  by (metis hd_dropWhile list.set_sel(1))

lemma strip_empty_iff: "strip m = [] \<longleftrightarrow> blank m"
proof
  assume a: "strip m = []"
  show "blank m"
  proof (rule ccontr)
    assume nb: "\<not> blank m"
    then have "dropWhile is_space m \<noteq> []"
      by (simp add: blank_def list_all_iff dropWhile_eq_Nil_conv)
    then obtain x where "x \<in> set (dropWhile is_space m)" "\<not> is_space x"
      using dropWhile_nonempty_has by blast
    then have "dropWhile is_space (rev (dropWhile is_space m)) \<noteq> []"
      by (auto simp: dropWhile_eq_Nil_conv)
    with a show False by (simp add: strip_def)
  qed
next
  assume "blank m"
  then show "strip m = []"
    by (auto simp: strip_def blank_def list_all_iff dest: set_dropWhileD)
qed

lemma kept_iff: "m \<noteq> [] \<and> strip m \<noteq> [] \<longleftrightarrow> \<not> blank m"
  by (auto simp: strip_empty_iff) (simp add: blank_def)

lemma build_msgs_acc: "build_msgs acc ps = acc @ normalized ps"
proof (induction acc ps rule: build_msgs.induct)
  case (1 msgs)
  show ?case by (simp add: normalized_def)
next
  case (2 msgs ms)
  then show ?case by (simp add: normalized_def)
next
  case (3 msgs m ms)
  then show ?case using kept_iff [of m] by (auto simp: normalized_def)
qed

lemma delivered_append: "delivered (xs @ ys) = delivered xs @ delivered ys"
  by (induction xs rule: delivered.induct) simp_all

lemma attempted_append: "attempted (xs @ ys) = attempted xs @ attempted ys"
  by (induction xs rule: attempted.induct) simp_all

lemma followups_append: "followups (xs @ ys) = followups xs @ followups ys"
  by (induction xs rule: followups.induct) simp_all

lemma send_loop_followups: "followups (fst (send_loop res n i ms)) = []"
proof (induction ms arbitrary: i)
  case Nil
  show ?case by simp
next
  case (Cons m ms)
  obtain tr r where e: "send_loop res n (Suc i) ms = (tr, r)"
    by fastforce
  from Cons.IH [of "Suc i"] e have "followups tr = []" by simp
  then show ?case
    by (cases "res i") (simp_all add: e followups_append)
qed

lemma send_loop_done:
  "snd (send_loop res n i ms) = Done \<Longrightarrow> j < length ms \<Longrightarrow> res (i + j) = Done"
proof (induction ms arbitrary: i j)
  case Nil
  then show ?case by simp
next
  case (Cons m ms)
  from Cons.prems(1) have r: "res i = Done"
    by (auto split: call_result.splits prod.splits)
  with Cons.prems(1) have s: "snd (send_loop res n (Suc i) ms) = Done"
    by (auto split: prod.splits)
  show ?case
  proof (cases j)
    case 0
    with r show ?thesis by simp
  next
    case (Suc j')
    with Cons.prems(2) have "j' < length ms" by simp
    from Cons.IH [OF s this] Suc show ?thesis by simp
  qed
qed

lemma send_loop_ok:
  "(\<And>j. j < length ms \<Longrightarrow> res (i + j) = Done) \<Longrightarrow>
   snd (send_loop res n i ms) = Done \<and>
   delivered (fst (send_loop res n i ms)) = ms \<and>
   attempted (fst (send_loop res n i ms)) = ms"
proof (induction ms arbitrary: i)
  case Nil
  then show ?case by simp
next
  case (Cons m ms)
  from Cons.prems [of 0] have r: "res i = Done" by simp
  have "\<And>j. j < length ms \<Longrightarrow> res (Suc i + j) = Done"
    using Cons.prems by force
  from Cons.IH [OF this] r show ?case
    by (auto simp: delivered_append attempted_append split: prod.splits)
qed

lemma send_loop_fail:
  "k < length ms \<Longrightarrow> (\<And>j. j < k \<Longrightarrow> res (i + j) = Done) \<Longrightarrow> res (i + k) \<noteq> Done \<Longrightarrow>
   snd (send_loop res n i ms) = res (i + k) \<and>
   delivered (fst (send_loop res n i ms)) = take k ms \<and>
   attempted (fst (send_loop res n i ms)) = take (Suc k) ms"
proof (induction ms arbitrary: i k)
  case Nil
  then show ?case by simp
next
  case (Cons m ms)
  show ?case
  proof (cases k)
    case 0
    with Cons.prems(3) show ?thesis
      by (cases "res i") auto
  next
    case (Suc k')
    from Cons.prems(2) [of 0] Suc have r: "res i = Done" by simp
    have a: "k' < length ms" using Cons.prems(1) Suc by simp
    have b: "\<And>j. j < k' \<Longrightarrow> res (Suc i + j) = Done"
      using Cons.prems(2) Suc by force
    have c: "res (Suc i + k') \<noteq> Done" using Cons.prems(3) Suc by simp
    from Cons.IH [OF a b c] r Suc show ?thesis
      by (auto simp: delivered_append attempted_append split: prod.splits)
  qed
qed

lemma no_permission_not_generic: "no_permission_msg \<noteq> send_failed_msg e"
  by (simp add: no_permission_msg_def send_failed_msg_def ascii_def)

lemma sendms_send_phase:
  assumes "\<not> truthy (is_on_user_cooldown s (sm_clock c 0) (sm_user_id c))"
    and "\<not> truthy (is_on_guild_cooldown s (sm_clock c 1) (guild_id_or_0 (sm_guild_id c)))"
    and "msgs = build_msgs [] [Some (sm_m1 c), sm_m2 c, sm_m3 c]"
    and "msgs \<noteq> []"
  shows "sendms c s =
     (case send_loop (sm_send c) (length msgs) 0 msgs of
        (tr, Done) \<Rightarrow>
          (s\<lparr>user_last := (user_last s)(sm_user_id c \<mapsto> sm_clock c 2),
             guild_last := (guild_last s)(guild_id_or_0 (sm_guild_id c) \<mapsto> sm_clock c 3)\<rparr>,
           Respond sending_msg # tr @ [Followup (sent_msg (length msgs)) True])
      | (tr, Forbidden) \<Rightarrow>
          (s, Respond sending_msg # tr @ [Followup no_permission_msg True])
      | (tr, Error e) \<Rightarrow>
          (s, Respond sending_msg # tr @ [Followup (send_failed_msg e) True]))"
  using assms(1,2,4) unfolding assms(3)
  by (simp add: sendms_def Let_def del: build_msgs.simps)

lemma sendms_all_sent:
  assumes "\<not> truthy (is_on_user_cooldown s (sm_clock c 0) (sm_user_id c))"
    and "\<not> truthy (is_on_guild_cooldown s (sm_clock c 1) (guild_id_or_0 (sm_guild_id c)))"
    and "msgs = build_msgs [] [Some (sm_m1 c), sm_m2 c, sm_m3 c]"
    and "msgs \<noteq> []"
    and ok: "\<And>j. j < length msgs \<Longrightarrow> sm_send c j = Done"
  shows "fst (sendms c s) =
           s\<lparr>user_last := (user_last s)(sm_user_id c \<mapsto> sm_clock c 2),
             guild_last := (guild_last s)(guild_id_or_0 (sm_guild_id c) \<mapsto> sm_clock c 3)\<rparr>"
    and "delivered (snd (sendms c s)) = msgs"
    and "attempted (snd (sendms c s)) = msgs"
    and "followups (snd (sendms c s)) = [sent_msg (length msgs)]"
proof -
  obtain tr r where e: "send_loop (sm_send c) (length msgs) 0 msgs = (tr, r)"
    by fastforce
  have "\<And>j. j < length msgs \<Longrightarrow> sm_send c (0 + j) = Done" using ok by simp
  from send_loop_ok [of msgs "sm_send c" 0 "length msgs", OF this] e
  have r: "r = Done" and d: "delivered tr = msgs" and a: "attempted tr = msgs" by simp_all
  from send_loop_followups [of "sm_send c" "length msgs" 0 msgs] e
  have f: "followups tr = []" by simp
  have s: "sendms c s =
      (s\<lparr>user_last := (user_last s)(sm_user_id c \<mapsto> sm_clock c 2),
         guild_last := (guild_last s)(guild_id_or_0 (sm_guild_id c) \<mapsto> sm_clock c 3)\<rparr>,
       Respond sending_msg # tr @ [Followup (sent_msg (length msgs)) True])"
    using sendms_send_phase [OF assms(1-4)] e r by simp
  show "fst (sendms c s) =
           s\<lparr>user_last := (user_last s)(sm_user_id c \<mapsto> sm_clock c 2),
             guild_last := (guild_last s)(guild_id_or_0 (sm_guild_id c) \<mapsto> sm_clock c 3)\<rparr>"
    by (simp add: s)
  show "delivered (snd (sendms c s)) = msgs"
    by (simp add: s delivered_append d)
  show "attempted (snd (sendms c s)) = msgs"
    by (simp add: s attempted_append a)
  show "followups (snd (sendms c s)) = [sent_msg (length msgs)]"
    by (simp add: s followups_append f)
qed

lemma sendms_failed_at:
  assumes "\<not> truthy (is_on_user_cooldown s (sm_clock c 0) (sm_user_id c))"
    and "\<not> truthy (is_on_guild_cooldown s (sm_clock c 1) (guild_id_or_0 (sm_guild_id c)))"
    and "msgs = build_msgs [] [Some (sm_m1 c), sm_m2 c, sm_m3 c]"
    and i: "i < length msgs"
    and ok: "\<And>j. j < i \<Longrightarrow> sm_send c j = Done"
    and bad: "sm_send c i \<noteq> Done"
  shows "fst (sendms c s) = s"
    and "delivered (snd (sendms c s)) = take i msgs"
    and "attempted (snd (sendms c s)) = take (Suc i) msgs"
    and "followups (snd (sendms c s)) =
           (case sm_send c i of Done \<Rightarrow> [] | Forbidden \<Rightarrow> [no_permission_msg]
            | Error e \<Rightarrow> [send_failed_msg e])"
proof -
  from i have ne: "msgs \<noteq> []" by auto
  obtain tr r where e: "send_loop (sm_send c) (length msgs) 0 msgs = (tr, r)"
    by fastforce
  have o: "\<And>j. j < i \<Longrightarrow> sm_send c (0 + j) = Done" using ok by simp
  have b: "sm_send c (0 + i) \<noteq> Done" using bad by simp
  from send_loop_fail [of i msgs "sm_send c" 0 "length msgs", OF i o b] e
  have r: "r = sm_send c i" and d: "delivered tr = take i msgs"
    and a: "attempted tr = take (Suc i) msgs" by simp_all
  from send_loop_followups [of "sm_send c" "length msgs" 0 msgs] e
  have f: "followups tr = []" by simp
  note ph = sendms_send_phase [OF assms(1-3) ne]
  show "fst (sendms c s) = s"
    using ph e r bad by (cases "sm_send c i") simp_all
  show "delivered (snd (sendms c s)) = take i msgs"
    using ph e r bad d by (cases "sm_send c i") (simp_all add: delivered_append)
  show "attempted (snd (sendms c s)) = take (Suc i) msgs"
    using ph e r bad a by (cases "sm_send c i") (simp_all add: attempted_append)
  show "followups (snd (sendms c s)) =
           (case sm_send c i of Done \<Rightarrow> [] | Forbidden \<Rightarrow> [no_permission_msg]
            | Error e \<Rightarrow> [send_failed_msg e])"
    using ph e r bad f by (cases "sm_send c i") (simp_all add: followups_append)
qed

lemma sendms_changed_all_done:
  assumes ch: "fst (sendms c s) \<noteq> s"
    and m: "msgs = build_msgs [] [Some (sm_m1 c), sm_m2 c, sm_m3 c]"
    and j: "j < length msgs"
  shows "sm_send c j = Done"
proof -
  from ch have u: "\<not> truthy (is_on_user_cooldown s (sm_clock c 0) (sm_user_id c))"
    by (auto simp: sendms_def Let_def)
  from ch u have g:
    "\<not> truthy (is_on_guild_cooldown s (sm_clock c 1) (guild_id_or_0 (sm_guild_id c)))"
    by (auto simp: sendms_def Let_def)
  from j have ne: "msgs \<noteq> []" by auto
  obtain tr r where e: "send_loop (sm_send c) (length msgs) 0 msgs = (tr, r)"
    by fastforce
  from sendms_send_phase [OF u g m ne] e ch have "r = Done"
    by (cases r) simp_all
  with e have "snd (send_loop (sm_send c) (length msgs) 0 msgs) = Done" by simp
  from send_loop_done [OF this j] show ?thesis by simp
qed

text \<open>
  C7: the list built from the three payloads is the list of the payloads that are
  present and not blank (a blank payload is empty or made of whitespace only), each cut
  to its first 2000 code points, in the order of submission. The payloads
  \<open>""\<close>, \<open>"hello"\<close>, none give exactly \<open>["hello"]\<close>. A payload that is not blank and
  longer than 2000 code points is kept as exactly its first 2000 code points; and when
  both cooldowns are clear and every send succeeds, the messages delivered to the
  channel are exactly the normalized list, so truncation raises no error.
\<close>

theorem relay_normalization:
  "build_msgs [] [p1, p2, p3] = normalized [p1, p2, p3] \<and>
   build_msgs [] [Some [], Some (ascii ''hello''), None] = [ascii ''hello''] \<and>
   (2000 < length m \<and> \<not> blank m \<longrightarrow>
      build_msgs [] [Some m, None, None] = [take 2000 m] \<and> length (take 2000 m) = 2000) \<and>
   (\<not> truthy (is_on_user_cooldown s (sm_clock c 0) (sm_user_id c)) \<and>
    \<not> truthy (is_on_guild_cooldown s (sm_clock c 1) (guild_id_or_0 (sm_guild_id c))) \<and>
    normalized [Some (sm_m1 c), sm_m2 c, sm_m3 c] \<noteq> [] \<and>
    (\<forall>j < length (normalized [Some (sm_m1 c), sm_m2 c, sm_m3 c]). sm_send c j = Done) \<longrightarrow>
      delivered (snd (sendms c s)) = normalized [Some (sm_m1 c), sm_m2 c, sm_m3 c])"
proof -
  have a: "build_msgs [] [p1, p2, p3] = normalized [p1, p2, p3]"
    by (simp add: build_msgs_acc)
  have b: "build_msgs [] [Some [], Some (ascii ''hello''), None] = [ascii ''hello'']"
    by (simp add: ascii_def strip_def is_space_def)
  have c: "2000 < length m \<and> \<not> blank m \<longrightarrow>
      build_msgs [] [Some m, None, None] = [take 2000 m] \<and> length (take 2000 m) = 2000"
    by (simp add: build_msgs_acc normalized_def)
  have d: "\<not> truthy (is_on_user_cooldown s (sm_clock c 0) (sm_user_id c)) \<and>
    \<not> truthy (is_on_guild_cooldown s (sm_clock c 1) (guild_id_or_0 (sm_guild_id c))) \<and>
    normalized [Some (sm_m1 c), sm_m2 c, sm_m3 c] \<noteq> [] \<and>
    (\<forall>j < length (normalized [Some (sm_m1 c), sm_m2 c, sm_m3 c]). sm_send c j = Done) \<longrightarrow>
      delivered (snd (sendms c s)) = normalized [Some (sm_m1 c), sm_m2 c, sm_m3 c]"
  proof (intro impI, elim conjE)
    assume u: "\<not> truthy (is_on_user_cooldown s (sm_clock c 0) (sm_user_id c))"
      and g: "\<not> truthy (is_on_guild_cooldown s (sm_clock c 1) (guild_id_or_0 (sm_guild_id c)))"
      and ne: "normalized [Some (sm_m1 c), sm_m2 c, sm_m3 c] \<noteq> []"
      and ok: "\<forall>j < length (normalized [Some (sm_m1 c), sm_m2 c, sm_m3 c]). sm_send c j = Done"
    have m: "normalized [Some (sm_m1 c), sm_m2 c, sm_m3 c] =
        build_msgs [] [Some (sm_m1 c), sm_m2 c, sm_m3 c]"
      by (simp add: build_msgs_acc)
    from sendms_all_sent(2) [OF u g m ne] ok
    show "delivered (snd (sendms c s)) = normalized [Some (sm_m1 c), sm_m2 c, sm_m3 c]"
      by simp
  qed
  from a b c d show ?thesis by blast
qed

lemma init_clear:
  "100 \<le> t \<Longrightarrow> \<not> truthy (is_on_user_cooldown init_state t u)"
  "100 \<le> t \<Longrightarrow> \<not> truthy (is_on_guild_cooldown init_state t g)"
  by (simp_all add: is_on_user_cooldown_def is_on_guild_cooldown_def init_state_def
      dict_get_def USER_COOLDOWN_SECS_def GUILD_COOLDOWN_SECS_def)

theorem relay_normalization_witness:
  "build_msgs [] [Some [], Some (ascii ''hello''), None] = [ascii ''hello''] \<and>
   length long_payload = 2001 \<and>
   build_msgs [] [Some long_payload, None, None] = [replicate 2000 97] \<and>
   delivered (snd (sendms long_call init_state)) = [replicate 2000 97]"
proof -
  have nb: "\<not> blank long_payload"
    by (simp add: long_payload_def blank_def list_all_iff is_space_def)
  have len: "length long_payload = 2001" by (simp add: long_payload_def)
  have n: "normalized [Some long_payload, None, Some [32, 9]] = [replicate 2000 97]"
    using nb by (simp add: normalized_def blank_def list_all_iff is_space_def long_payload_def)
  note t = relay_normalization [of "Some long_payload" None "Some [32, 9]" long_payload
      init_state long_call]
  have f: "sm_m1 long_call = long_payload" "sm_m2 long_call = None"
    "sm_m3 long_call = Some [32, 9]" "sm_clock long_call = (\<lambda>k. 100)"
    "sm_send long_call = (\<lambda>i. Done)"
    by (simp_all add: long_call_def)
  have b: "build_msgs [] [Some long_payload, None, None] = [replicate 2000 97]"
    using t nb len by (simp add: long_payload_def)
  have d: "delivered (snd (sendms long_call init_state)) = [replicate 2000 97]"
    using t n init_clear by (simp add: f)
  from t len b d show ?thesis by simp
qed

lemma sendms_state:
  "fst (sendms c s) = s \<or>
   fst (sendms c s) =
     s\<lparr>user_last := (user_last s)(sm_user_id c \<mapsto> sm_clock c 2),
       guild_last := (guild_last s)(guild_id_or_0 (sm_guild_id c) \<mapsto> sm_clock c 3)\<rparr>"
  by (simp add: sendms_def Let_def split: prod.splits call_result.splits
      del: build_msgs.simps)

text \<open>
  C3: take an invocation that passes both cooldown checks, and let \<open>msgs\<close> be its
  normalized payloads. If send \<open>i\<close> is the first one to fail, the two cooldown
  dictionaries are left as they were, sends \<open>0..i-1\<close> have been delivered and stay
  delivered, send \<open>i\<close> is the last one attempted, and the only follow-up is the
  permission message when the failure is \<open>discord.Forbidden\<close> and the generic message
  with the error text otherwise; the permission message is shown exactly when the
  failure is \<open>discord.Forbidden\<close>. If every send succeeds, both dictionaries are
  updated and all of \<open>msgs\<close> is delivered. And whenever the handler changed the state,
  every send had succeeded.
\<close>

theorem relay_partial_failure:
  assumes u: "\<not> truthy (is_on_user_cooldown s (sm_clock c 0) (sm_user_id c))"
    and g: "\<not> truthy (is_on_guild_cooldown s (sm_clock c 1) (guild_id_or_0 (sm_guild_id c)))"
    and m: "msgs = build_msgs [] [Some (sm_m1 c), sm_m2 c, sm_m3 c]"
  shows "(i < length msgs \<and> (\<forall>j<i. sm_send c j = Done) \<and> sm_send c i \<noteq> Done \<longrightarrow>
            fst (sendms c s) = s \<and>
            delivered (snd (sendms c s)) = take i msgs \<and>
            attempted (snd (sendms c s)) = take (Suc i) msgs \<and>
            followups (snd (sendms c s)) =
              (case sm_send c i of Done \<Rightarrow> [] | Forbidden \<Rightarrow> [no_permission_msg]
               | Error e \<Rightarrow> [send_failed_msg e]) \<and>
            (followups (snd (sendms c s)) = [no_permission_msg] \<longleftrightarrow>
               sm_send c i = Forbidden)) \<and>
         (msgs \<noteq> [] \<and> (\<forall>j<length msgs. sm_send c j = Done) \<longrightarrow>
            fst (sendms c s) =
              s\<lparr>user_last := (user_last s)(sm_user_id c \<mapsto> sm_clock c 2),
                guild_last := (guild_last s)(guild_id_or_0 (sm_guild_id c) \<mapsto> sm_clock c 3)\<rparr> \<and>
            delivered (snd (sendms c s)) = msgs) \<and>
         (fst (sendms c s) \<noteq> s \<longrightarrow> (\<forall>j<length msgs. sm_send c j = Done))"
proof (intro conjI impI)
  assume a: "i < length msgs \<and> (\<forall>j<i. sm_send c j = Done) \<and> sm_send c i \<noteq> Done"
  then have i: "i < length msgs" and ok: "\<And>j. j < i \<Longrightarrow> sm_send c j = Done"
    and bad: "sm_send c i \<noteq> Done" by simp_all
  note f = sendms_failed_at [OF u g m i ok bad]
  show "fst (sendms c s) = s" by (rule f(1))
  show "delivered (snd (sendms c s)) = take i msgs" by (rule f(2))
  show "attempted (snd (sendms c s)) = take (Suc i) msgs" by (rule f(3))
  show "followups (snd (sendms c s)) =
      (case sm_send c i of Done \<Rightarrow> [] | Forbidden \<Rightarrow> [no_permission_msg]
       | Error e \<Rightarrow> [send_failed_msg e])" by (rule f(4))
  show "followups (snd (sendms c s)) = [no_permission_msg] \<longleftrightarrow> sm_send c i = Forbidden"
    using f(4) bad no_permission_not_generic no_permission_not_generic [THEN not_sym]
    by (cases "sm_send c i") simp_all
next
  assume a: "msgs \<noteq> [] \<and> (\<forall>j<length msgs. sm_send c j = Done)"
  then have ne: "msgs \<noteq> []" and ok: "\<And>j. j < length msgs \<Longrightarrow> sm_send c j = Done"
    by simp_all
  show "fst (sendms c s) =
      s\<lparr>user_last := (user_last s)(sm_user_id c \<mapsto> sm_clock c 2),
        guild_last := (guild_last s)(guild_id_or_0 (sm_guild_id c) \<mapsto> sm_clock c 3)\<rparr>"
    by (rule sendms_all_sent(1) [OF u g m ne ok])
  show "delivered (snd (sendms c s)) = msgs"
    by (rule sendms_all_sent(2) [OF u g m ne ok])
next
  assume "fst (sendms c s) \<noteq> s"
  then show "\<forall>j<length msgs. sm_send c j = Done"
    using sendms_changed_all_done [OF _ m] by blast
qed

theorem relay_partial_failure_witness:
  "fst (sendms denied_call init_state) = init_state \<and>
   delivered (snd (sendms denied_call init_state)) = [ascii ''a''] \<and>
   attempted (snd (sendms denied_call init_state)) = [ascii ''a'', ascii ''b''] \<and>
   followups (snd (sendms denied_call init_state)) = [no_permission_msg]"
proof -
  have f: "sm_m1 denied_call = ascii ''a''" "sm_m2 denied_call = Some (ascii ''b'')"
    "sm_m3 denied_call = Some (ascii ''c'')" "sm_clock denied_call = (\<lambda>k. 100)"
    "sm_send denied_call = (\<lambda>i. if i = 1 then Forbidden else Done)"
    by (simp_all add: denied_call_def)
  have m: "[ascii ''a'', ascii ''b'', ascii ''c''] =
      build_msgs [] [Some (sm_m1 denied_call), sm_m2 denied_call, sm_m3 denied_call]"
    by (simp add: f ascii_def strip_def is_space_def)
  have u: "\<not> truthy (is_on_user_cooldown init_state (sm_clock denied_call 0)
      (sm_user_id denied_call))"
    using init_clear(1) by (simp add: f)
  have g: "\<not> truthy (is_on_guild_cooldown init_state (sm_clock denied_call 1)
      (guild_id_or_0 (sm_guild_id denied_call)))"
    using init_clear(2) by (simp add: f)
  from relay_partial_failure [OF u g m, of 1] show ?thesis
    by (simp add: f)
qed

text \<open>
  C9: for invocations outside a guild the guild cooldown key is 0. Such an invocation
  behaves exactly as one in a guild with id 0; its guild check reads the entry of key 0
  and rejects when that entry is still cooling down; when it records, it records at
  key 0. Hence two invocations outside any guild contend on one scope: after the first
  one has recorded, a second one by any user who is not on user cooldown, made with the
  clock at most 4 seconds past the recorded reading, is rejected with the guild message.
\<close>

theorem guildless_shared_scope:
  assumes "sm_guild_id c1 = None" and "sm_guild_id c2 = None"
  shows "sendms c1 s = sendms (c1\<lparr>sm_guild_id := Some 0\<rparr>) s \<and>
    (\<not> truthy (is_on_user_cooldown s (sm_clock c1 0) (sm_user_id c1)) \<and>
     truthy (is_on_guild_cooldown s (sm_clock c1 1) 0) \<longrightarrow>
       sendms c1 s = (s, [Respond guild_busy_msg])) \<and>
    (fst (sendms c1 s) \<noteq> s \<longrightarrow>
       guild_last (fst (sendms c1 s)) = (guild_last s)(0 \<mapsto> sm_clock c1 3)) \<and>
    (fst (sendms c1 s) \<noteq> s \<and>
     \<not> truthy (is_on_user_cooldown (fst (sendms c1 s)) (sm_clock c2 0) (sm_user_id c2)) \<and>
     sm_clock c2 1 - sm_clock c1 3 \<le> 4 \<longrightarrow>
       sendms c2 (fst (sendms c1 s)) = (fst (sendms c1 s), [Respond guild_busy_msg]))"
proof -
  have k1: "guild_id_or_0 (sm_guild_id c1) = 0" and k2: "guild_id_or_0 (sm_guild_id c2) = 0"
    using assms by simp_all
  have a: "sendms c1 s = sendms (c1\<lparr>sm_guild_id := Some 0\<rparr>) s"
    using assms(1) by (simp add: sendms_def Let_def del: build_msgs.simps)
  have busy: "\<And>c st. guild_id_or_0 (sm_guild_id c) = 0 \<Longrightarrow>
      \<not> truthy (is_on_user_cooldown st (sm_clock c 0) (sm_user_id c)) \<Longrightarrow>
      truthy (is_on_guild_cooldown st (sm_clock c 1) 0) \<Longrightarrow>
      sendms c st = (st, [Respond guild_busy_msg])"
    by (simp add: sendms_def Let_def del: build_msgs.simps)
  have rec: "fst (sendms c1 s) \<noteq> s \<Longrightarrow>
      guild_last (fst (sendms c1 s)) = (guild_last s)(0 \<mapsto> sm_clock c1 3)"
    using sendms_state [of c1 s] k1 by auto
  have cont: "fst (sendms c1 s) \<noteq> s \<and>
     \<not> truthy (is_on_user_cooldown (fst (sendms c1 s)) (sm_clock c2 0) (sm_user_id c2)) \<and>
     sm_clock c2 1 - sm_clock c1 3 \<le> 4 \<longrightarrow>
       sendms c2 (fst (sendms c1 s)) = (fst (sendms c1 s), [Respond guild_busy_msg])"
  proof (intro impI, elim conjE)
    assume ch: "fst (sendms c1 s) \<noteq> s"
      and u2: "\<not> truthy (is_on_user_cooldown (fst (sendms c1 s)) (sm_clock c2 0)
        (sm_user_id c2))"
      and near: "sm_clock c2 1 - sm_clock c1 3 \<le> 4"
    from rec [OF ch] have gl: "guild_last (fst (sendms c1 s)) 0 = Some (sm_clock c1 3)"
      by simp
    from near have r: "1 \<le> GUILD_COOLDOWN_SECS - (sm_clock c2 1 - sm_clock c1 3)"
      by (simp add: GUILD_COOLDOWN_SECS_def)
    then have "1 \<le> \<lfloor>GUILD_COOLDOWN_SECS - (sm_clock c2 1 - sm_clock c1 3)\<rfloor>"
      by (simp add: le_floor_iff)
    then have fl: "\<lfloor>GUILD_COOLDOWN_SECS - (sm_clock c2 1 - sm_clock c1 3)\<rfloor> \<noteq> 0"
      by linarith
    from r gl fl have "truthy (is_on_guild_cooldown (fst (sendms c1 s)) (sm_clock c2 1) 0)"
      by (simp add: is_on_guild_cooldown_def dict_get_def py_int_def Let_def)
    from busy [OF k2 u2 this]
    show "sendms c2 (fst (sendms c1 s)) = (fst (sendms c1 s), [Respond guild_busy_msg])" .
  qed
  from a busy [OF k1] rec cont show ?thesis by blast
qed

theorem guildless_shared_scope_witness:
  "sm_guild_id dm_call_a = None \<and> sm_guild_id dm_call_b = None \<and>
   sm_user_id dm_call_a \<noteq> sm_user_id dm_call_b \<and>
   guild_last (fst (sendms dm_call_a init_state)) 0 = Some 100 \<and>
   sendms dm_call_b (fst (sendms dm_call_a init_state)) =
     (fst (sendms dm_call_a init_state), [Respond guild_busy_msg])"
proof -
  have a: "sm_guild_id dm_call_a = None" "sm_user_id dm_call_a = 1"
    "sm_clock dm_call_a = (\<lambda>k. 100)"
    by (simp_all add: dm_call_a_def)
  have b: "sm_guild_id dm_call_b = None" "sm_user_id dm_call_b = 2"
    "sm_clock dm_call_b = (\<lambda>k. 102)"
    by (simp_all add: dm_call_b_def)
  have s1: "fst (sendms dm_call_a init_state) =
      \<lparr>user_last = [1 \<mapsto> 100], guild_last = [0 \<mapsto> 100]\<rparr>"
    by (simp add: sendms_def dm_call_a_def init_state_def is_on_user_cooldown_def
        is_on_guild_cooldown_def dict_get_def USER_COOLDOWN_SECS_def
        GUILD_COOLDOWN_SECS_def ascii_def strip_def is_space_def)
  have ch: "fst (sendms dm_call_a init_state) \<noteq> init_state"
    unfolding s1 by (simp add: init_state_def)
  have u2: "\<not> truthy (is_on_user_cooldown (fst (sendms dm_call_a init_state))
      (sm_clock dm_call_b 0) (sm_user_id dm_call_b))"
    by (simp add: s1 b is_on_user_cooldown_def dict_get_def USER_COOLDOWN_SECS_def)
  from guildless_shared_scope [OF a(1) b(1), of init_state, THEN conjunct2] ch u2
  show ?thesis by (simp add: a b init_state_def)
qed

section \<open>Properties of the /changenick command\<close>

lemma edited_append: "edited (xs @ ys) = edited xs @ edited ys"
  by (induction xs rule: edited.induct) simp_all

lemma nick_loop_success:
  "fst (nick_loop c g bm i ms su fa tr) =
     su @ map (m_display_name \<circ> snd) (filter (changed c g bm) (enumerate i ms))"
  by (induction ms arbitrary: i su fa tr)
    (auto simp: changed_def bypassed_def split: call_result.splits)

lemma nick_loop_failed:
  "fst (snd (nick_loop c g bm i ms su fa tr)) =
     fa @ map (failed_entry c g bm) (filter (\<lambda>p. \<not> changed c g bm p) (enumerate i ms))"
  by (induction ms arbitrary: i su fa tr)
    (auto simp: changed_def bypassed_def failed_entry_def failure_reason_def
      split: call_result.splits)

lemma nick_loop_edited:
  "edited (snd (snd (nick_loop c g bm i ms su fa tr))) =
     edited tr @ filter (\<lambda>m. \<not> bypassed g bm m) ms"
  by (induction ms arbitrary: i su fa tr)
    (auto simp: edited_append bypassed_def split: call_result.splits)

lemma changenick_accepted:
  assumes "accepted c g bm" and "resolve_targets c g = Some targets"
  shows "changenick c =
     (Defer # snd (snd (nick_loop c g bm 0 targets [] [] [])) @
        [Followup (summary (fst (nick_loop c g bm 0 targets [] [] []))
           (fst (snd (nick_loop c g bm 0 targets [] [] [])))) False],
      fst (nick_loop c g bm 0 targets [] [] []),
      fst (snd (nick_loop c g bm 0 targets [] [] [])))"
  using assms by (auto simp: changenick_def accepted_def split: prod.splits)

lemma changenick_success:
  assumes "accepted c g bm" and "resolve_targets c g = Some targets"
  shows "fst (snd (changenick c)) =
     map (m_display_name \<circ> snd) (filter (changed c g bm) (enumerate 0 targets))"
  by (simp add: changenick_accepted [OF assms] nick_loop_success)

lemma changenick_failed:
  assumes "accepted c g bm" and "resolve_targets c g = Some targets"
  shows "snd (snd (changenick c)) =
     map (failed_entry c g bm) (filter (\<lambda>p. \<not> changed c g bm p) (enumerate 0 targets))"
  by (simp add: changenick_accepted [OF assms] nick_loop_failed)

lemma changenick_edited:
  assumes "accepted c g bm" and "resolve_targets c g = Some targets"
  shows "edited (fst (changenick c)) = filter (\<lambda>m. \<not> bypassed g bm m) targets"
  by (simp add: changenick_accepted [OF assms] edited_append nick_loop_edited)

lemma changenick_count:
  assumes "accepted c g bm" and "resolve_targets c g = Some targets"
  shows "length (fst (snd (changenick c))) + length (snd (snd (changenick c))) =
     length targets"
  by (simp add: changenick_success [OF assms] changenick_failed [OF assms]
      sum_length_filter_compl)

lemma resolve_many:
  "cn_change_many c \<Longrightarrow> resolve_targets c g = Some (take 50 (eligible c g))"
  by (simp add: resolve_targets_def eligible_def MAX_CHANGE_def Let_def)

text \<open>
  C4: when the guards pass and the target list is resolved, every target is accounted
  for exactly once. With the targets numbered by position, \<open>success\<close> holds the display
  names of the targets whose nickname was changed, in order, and \<open>failed\<close> holds one
  entry for each of the other targets, in order. The two lists together have as many
  entries as there are targets, and their names, counted with multiplicity, are the
  display names of the targets.
\<close>

theorem batch_partitions_targets:
  assumes "accepted c g bm" and "resolve_targets c g = Some targets"
  shows "fst (snd (changenick c)) =
           map (m_display_name \<circ> snd) (filter (changed c g bm) (enumerate 0 targets)) \<and>
         snd (snd (changenick c)) =
           map (failed_entry c g bm)
             (filter (\<lambda>p. \<not> changed c g bm p) (enumerate 0 targets)) \<and>
         length (fst (snd (changenick c))) + length (snd (snd (changenick c))) =
           length targets \<and>
         mset (fst (snd (changenick c))) + mset (map fst (snd (snd (changenick c)))) =
           mset (map m_display_name targets)"
proof -
  let ?e = "enumerate 0 targets"
  have f: "fst \<circ> failed_entry c g bm = m_display_name \<circ> snd"
    by (simp add: fun_eq_iff failed_entry_def)
  have "mset (map (m_display_name \<circ> snd) (filter (changed c g bm) ?e)) +
        mset (map (m_display_name \<circ> snd) (filter (\<lambda>p. \<not> changed c g bm p) ?e)) =
        mset (map (m_display_name \<circ> snd) ?e)"
    by (metis map_append mset_append mset_map mset_filter multiset_partition)
  also have "map (m_display_name \<circ> snd) ?e = map m_display_name targets"
    by (simp add: map_map [symmetric] del: map_map)
  finally have m: "mset (map (m_display_name \<circ> snd) (filter (changed c g bm) ?e)) +
        mset (map (m_display_name \<circ> snd) (filter (\<lambda>p. \<not> changed c g bm p) ?e)) =
        mset (map m_display_name targets)" .
  have p: "mset (fst (snd (changenick c))) + mset (map fst (snd (snd (changenick c)))) =
      mset (map m_display_name targets)"
    unfolding changenick_success [OF assms] changenick_failed [OF assms] map_map f
    by (rule m)
  from changenick_success [OF assms] changenick_failed [OF assms]
    changenick_count [OF assms] p
  show ?thesis by (intro conjI)
qed

lemma crowd_ok: "n < 99 \<Longrightarrow> m \<in> set (crowd n) \<Longrightarrow> \<not> m_bot m \<and> m_id m \<noteq> 99"
proof -
  assume n: "n < 99" and "m \<in> set (crowd n)"
  then obtain k where k: "k \<in> set [1..<Suc n]"
    and m: "m = \<lparr>m_id = int k, m_bot = False, m_display_name = digits k,
     m_top_role_position = 0, m_manage_nicknames = False\<rparr>"
    unfolding crowd_def by (auto simp only: set_map image_iff)
  from k n have "k < 99" by auto
  with m show ?thesis by simp
qed

lemma demo_accepted: "accepted demo_call demo_guild robo"
  by (simp add: accepted_def demo_call_def demo_guild_def get_member_def
      olga_def robo_def alice_def bob_def)

lemma demo_targets: "resolve_targets demo_call demo_guild = Some [olga, alice, bob]"
  by (simp add: resolve_targets_def demo_call_def demo_guild_def MAX_CHANGE_def
      olga_def robo_def alice_def bob_def)

lemma demo_changed:
  "\<not> changed demo_call demo_guild robo (0, olga)"
  "changed demo_call demo_guild robo (Suc 0, alice)"
  "\<not> changed demo_call demo_guild robo (Suc (Suc 0), bob)"
  by (simp_all add: changed_def bypassed_def demo_call_def demo_guild_def
      olga_def robo_def alice_def bob_def)

lemma demo_failed:
  "snd (snd (changenick demo_call)) =
     [(ascii ''Olga'', owner_reason), (ascii ''Bob'', hierarchy_reason)]"
  by (simp add: changenick_failed [OF demo_accepted demo_targets] demo_changed
      failed_entry_def failure_reason_def)
    (simp add: demo_guild_def olga_def robo_def bob_def)

lemma demo_edited: "edited (fst (changenick demo_call)) = [alice]"
  by (simp add: changenick_edited [OF demo_accepted demo_targets] bypassed_def)
    (simp add: demo_guild_def olga_def robo_def alice_def bob_def)

theorem batch_partitions_targets_witness:
  "accepted demo_call demo_guild robo \<and>
   resolve_targets demo_call demo_guild = Some [olga, alice, bob] \<and>
   fst (snd (changenick demo_call)) = [ascii ''Alice''] \<and>
   map fst (snd (snd (changenick demo_call))) = [ascii ''Olga'', ascii ''Bob''] \<and>
   length (fst (snd (changenick demo_call))) + length (snd (snd (changenick demo_call))) = 3"
proof -
  note t = batch_partitions_targets [OF demo_accepted demo_targets]
  from t have s: "fst (snd (changenick demo_call)) = [ascii ''Alice'']"
    by (simp add: demo_changed) (simp add: alice_def)
  from t have f: "map fst (snd (snd (changenick demo_call))) = [ascii ''Olga'', ascii ''Bob'']"
    by (simp add: demo_changed failed_entry_def) (simp add: olga_def bob_def)
  from t have n: "length (fst (snd (changenick demo_call))) +
      length (snd (snd (changenick demo_call))) = 3"
    by (simp add: demo_changed)
  from demo_accepted demo_targets s f n show ?thesis by simp
qed

text \<open>
  C5: with \<open>change_many\<close> true the target list is the guild's member list without bots
  and without the bot itself, cut to its first 50 entries in the listing order. With 51
  such members the targets are the first 50 of them. When the guards pass, the edits,
  the \<open>success\<close> list and the \<open>failed\<close> list are computed from these targets alone, and
  \<open>success\<close> and \<open>failed\<close> together have \<open>min 50 n\<close> entries for \<open>n\<close> eligible
  members: a member beyond the cap is neither edited nor reported.
\<close>

theorem change_many_targets:
  assumes "cn_change_many c"
  shows "resolve_targets c g = Some (take 50 (eligible c g)) \<and>
    length (take 50 (eligible c g)) = min 50 (length (eligible c g)) \<and>
    (length (eligible c g) = 51 \<longrightarrow>
       take 50 (eligible c g) = butlast (eligible c g) \<and>
       length (take 50 (eligible c g)) = 50) \<and>
    (accepted c g bm \<longrightarrow>
       edited (fst (changenick c)) =
         filter (\<lambda>m. \<not> bypassed g bm m) (take 50 (eligible c g)) \<and>
       fst (snd (changenick c)) =
         map (m_display_name \<circ> snd)
           (filter (changed c g bm) (enumerate 0 (take 50 (eligible c g)))) \<and>
       snd (snd (changenick c)) =
         map (failed_entry c g bm)
           (filter (\<lambda>p. \<not> changed c g bm p) (enumerate 0 (take 50 (eligible c g)))) \<and>
       length (fst (snd (changenick c))) + length (snd (snd (changenick c))) =
         min 50 (length (eligible c g)))"
proof -
  note r = resolve_many [OF assms, of g]
  have a: "length (take 50 (eligible c g)) = min 50 (length (eligible c g))"
    by simp
  have b: "length (eligible c g) = 51 \<longrightarrow>
       take 50 (eligible c g) = butlast (eligible c g) \<and>
       length (take 50 (eligible c g)) = 50"
    by (simp add: butlast_conv_take)
  have d: "accepted c g bm \<longrightarrow>
       edited (fst (changenick c)) =
         filter (\<lambda>m. \<not> bypassed g bm m) (take 50 (eligible c g)) \<and>
       fst (snd (changenick c)) =
         map (m_display_name \<circ> snd)
           (filter (changed c g bm) (enumerate 0 (take 50 (eligible c g)))) \<and>
       snd (snd (changenick c)) =
         map (failed_entry c g bm)
           (filter (\<lambda>p. \<not> changed c g bm p) (enumerate 0 (take 50 (eligible c g)))) \<and>
       length (fst (snd (changenick c))) + length (snd (snd (changenick c))) =
         min 50 (length (eligible c g))"
  proof
    assume acc: "accepted c g bm"
    from changenick_edited [OF acc r] changenick_success [OF acc r]
      changenick_failed [OF acc r] changenick_count [OF acc r] a
    show "edited (fst (changenick c)) =
         filter (\<lambda>m. \<not> bypassed g bm m) (take 50 (eligible c g)) \<and>
       fst (snd (changenick c)) =
         map (m_display_name \<circ> snd)
           (filter (changed c g bm) (enumerate 0 (take 50 (eligible c g)))) \<and>
       snd (snd (changenick c)) =
         map (failed_entry c g bm)
           (filter (\<lambda>p. \<not> changed c g bm p) (enumerate 0 (take 50 (eligible c g)))) \<and>
       length (fst (snd (changenick c))) + length (snd (snd (changenick c))) =
         min 50 (length (eligible c g))"
      by (intro conjI) simp_all
  qed
  from r a b d show ?thesis by (intro conjI)
qed

lemma crowd_eligible: "eligible crowd_call crowd_guild = crowd 51"
proof -
  have "\<forall>m\<in>set (crowd 51). \<not> m_bot m \<and> m_id m \<noteq> 99"
    using crowd_ok [of 51] by simp
  then have "filter (\<lambda>m. \<not> m_bot m \<and> m_id m \<noteq> 99) (crowd 51) = crowd 51"
    by (simp only: filter_True)
  then show ?thesis
    by (simp add: eligible_def crowd_call_def crowd_guild_def robo_def)
qed

lemma crowd_accepted: "accepted crowd_call crowd_guild robo"
  by (simp add: accepted_def crowd_call_def crowd_guild_def get_member_def robo_def)

theorem change_many_targets_witness:
  "cn_change_many crowd_call \<and> accepted crowd_call crowd_guild robo \<and>
   length (eligible crowd_call crowd_guild) = 51 \<and>
   resolve_targets crowd_call crowd_guild = Some (crowd 50) \<and>
   length (crowd 50) = 50 \<and>
   length (fst (snd (changenick crowd_call))) +
     length (snd (snd (changenick crowd_call))) = 50"
proof -
  have m: "cn_change_many crowd_call" by (simp add: crowd_call_def)
  have l: "length (eligible crowd_call crowd_guild) = 51"
    by (simp add: crowd_eligible crowd_def)
  have c50: "take 50 (crowd 51) = crowd 50"
    by (simp add: crowd_def take_map)
  have l50: "length (crowd 50) = 50" by (simp add: crowd_def)
  note t = change_many_targets [OF m, of crowd_guild robo]
  from t have r: "resolve_targets crowd_call crowd_guild = Some (crowd 50)"
    by (simp add: crowd_eligible c50)
  note t4 = t [THEN conjunct2, THEN conjunct2, THEN conjunct2, rule_format,
      OF crowd_accepted]
  from t4 [THEN conjunct2, THEN conjunct2, THEN conjunct2] l
  have n: "length (fst (snd (changenick crowd_call))) +
     length (snd (snd (changenick crowd_call))) = 50"
    by simp
  from m crowd_accepted l r l50 n show ?thesis by simp
qed

text \<open>
  C6, as stated: an owner target is recorded with the reason text
  \<open>owner, cannot change\<close>, and a target at or above the bot's rank with the text
  \<open>role equal or higher than bot\<close>. The code records other texts: in the small guild
  the owner gets \<open>Server owner (cannot change)\<close> and the member at the bot's rank gets
  \<open>Role is equal or higher than bot\<close>, and no entry carries the texts of the claim.
\<close>

theorem hard_rule_reason_counterexample:
  "accepted demo_call demo_guild robo \<and>
   resolve_targets demo_call demo_guild = Some [olga, alice, bob] \<and>
   m_id olga = g_owner_id demo_guild \<and>
   m_id bob \<noteq> g_owner_id demo_guild \<and>
   m_top_role_position robo \<le> m_top_role_position bob \<and>
   snd (snd (changenick demo_call)) =
     [(ascii ''Olga'', ascii ''Server owner (cannot change)''),
      (ascii ''Bob'', ascii ''Role is equal or higher than bot'')] \<and>
   (ascii ''Olga'', ascii ''owner, cannot change'') \<notin> set (snd (snd (changenick demo_call))) \<and>
   (ascii ''Bob'', ascii ''role equal or higher than bot'') \<notin>
     set (snd (snd (changenick demo_call)))"
proof -
  have a: "m_id olga = g_owner_id demo_guild" "m_id bob \<noteq> g_owner_id demo_guild"
    "m_top_role_position robo \<le> m_top_role_position bob"
    by (simp_all add: olga_def bob_def robo_def demo_guild_def)
  have b: "snd (snd (changenick demo_call)) =
     [(ascii ''Olga'', ascii ''Server owner (cannot change)''),
      (ascii ''Bob'', ascii ''Role is equal or higher than bot'')]"
    by (simp add: demo_failed owner_reason_def hierarchy_reason_def)
  have c: "(ascii ''Olga'', ascii ''owner, cannot change'') \<notin>
      set (snd (snd (changenick demo_call)))"
    "(ascii ''Bob'', ascii ''role equal or higher than bot'') \<notin>
      set (snd (snd (changenick demo_call)))"
    unfolding b by (simp_all add: ascii_def)
  from demo_accepted demo_targets a b c show ?thesis by (intro conjI)
qed

text \<open>
  C6, amended: when the guards pass, every target that is the guild owner has an entry
  in \<open>failed\<close> with the fixed reason \<open>Server owner (cannot change)\<close>, and \<open>edit\<close> is
  not called on it; every other target whose top role is not strictly below the bot's
  has an entry in \<open>failed\<close> with the fixed reason \<open>Role is equal or higher than bot\<close>,
  and \<open>edit\<close> is not called on it. No such target is dropped.
\<close>

theorem hard_rule_targets_fail:
  assumes acc: "accepted c g bm" and res: "resolve_targets c g = Some targets"
    and m: "m \<in> set targets"
  shows "owner_reason = ascii ''Server owner (cannot change)'' \<and>
    hierarchy_reason = ascii ''Role is equal or higher than bot'' \<and>
    (m_id m = g_owner_id g \<longrightarrow>
       (m_display_name m, owner_reason) \<in> set (snd (snd (changenick c))) \<and>
       m \<notin> set (edited (fst (changenick c)))) \<and>
    (m_id m \<noteq> g_owner_id g \<and> m_top_role_position bm \<le> m_top_role_position m \<longrightarrow>
       (m_display_name m, hierarchy_reason) \<in> set (snd (snd (changenick c))) \<and>
       m \<notin> set (edited (fst (changenick c))))"
proof -
  from m obtain k where k: "k < length targets" and mk: "targets ! k = m"
    by (auto simp: in_set_conv_nth)
  then have e: "(k, m) \<in> set (enumerate 0 targets)"
    by (simp add: in_set_enumerate_eq)
  have fail: "bypassed g bm m \<Longrightarrow>
      failed_entry c g bm (k, m) \<in> set (snd (snd (changenick c)))"
    using e by (simp add: changenick_failed [OF acc res] changed_def)
  have noedit: "bypassed g bm m \<Longrightarrow> m \<notin> set (edited (fst (changenick c)))"
    by (simp add: changenick_edited [OF acc res])
  have o: "m_id m = g_owner_id g \<longrightarrow>
       (m_display_name m, owner_reason) \<in> set (snd (snd (changenick c))) \<and>
       m \<notin> set (edited (fst (changenick c)))"
  proof
    assume w: "m_id m = g_owner_id g"
    then have b: "bypassed g bm m" by (simp add: bypassed_def)
    from w have "failed_entry c g bm (k, m) = (m_display_name m, owner_reason)"
      by (simp add: failed_entry_def failure_reason_def)
    with fail [OF b] noedit [OF b]
    show "(m_display_name m, owner_reason) \<in> set (snd (snd (changenick c))) \<and>
       m \<notin> set (edited (fst (changenick c)))" by simp
  qed
  have h: "m_id m \<noteq> g_owner_id g \<and> m_top_role_position bm \<le> m_top_role_position m \<longrightarrow>
       (m_display_name m, hierarchy_reason) \<in> set (snd (snd (changenick c))) \<and>
       m \<notin> set (edited (fst (changenick c)))"
  proof
    assume w: "m_id m \<noteq> g_owner_id g \<and> m_top_role_position bm \<le> m_top_role_position m"
    then have b: "bypassed g bm m" by (simp add: bypassed_def)
    from w have "failed_entry c g bm (k, m) = (m_display_name m, hierarchy_reason)"
      by (simp add: failed_entry_def failure_reason_def)
    with fail [OF b] noedit [OF b]
    show "(m_display_name m, hierarchy_reason) \<in> set (snd (snd (changenick c))) \<and>
       m \<notin> set (edited (fst (changenick c)))" by simp
  qed
  from o h show ?thesis
    by (simp add: owner_reason_def hierarchy_reason_def)
qed

theorem hard_rule_targets_fail_witness:
  "accepted demo_call demo_guild robo \<and>
   resolve_targets demo_call demo_guild = Some [olga, alice, bob] \<and>
   m_id olga = g_owner_id demo_guild \<and>
   (ascii ''Olga'', owner_reason) \<in> set (snd (snd (changenick demo_call))) \<and>
   olga \<notin> set (edited (fst (changenick demo_call))) \<and>
   m_id bob \<noteq> g_owner_id demo_guild \<and>
   m_top_role_position robo \<le> m_top_role_position bob \<and>
   (ascii ''Bob'', hierarchy_reason) \<in> set (snd (snd (changenick demo_call))) \<and>
   bob \<notin> set (edited (fst (changenick demo_call)))"
proof -
  have a: "m_id olga = g_owner_id demo_guild" "m_id bob \<noteq> g_owner_id demo_guild"
    "m_top_role_position robo \<le> m_top_role_position bob"
    "m_display_name olga = ascii ''Olga''" "m_display_name bob = ascii ''Bob''"
    by (simp_all add: olga_def bob_def robo_def demo_guild_def)
  have "olga \<in> set [olga, alice, bob]" by simp
  from hard_rule_targets_fail [OF demo_accepted demo_targets this] a
  have o: "(ascii ''Olga'', owner_reason) \<in> set (snd (snd (changenick demo_call))) \<and>
      olga \<notin> set (edited (fst (changenick demo_call)))"
    by simp
  have "bob \<in> set [olga, alice, bob]" by simp
  from hard_rule_targets_fail [OF demo_accepted demo_targets this] a
  have b: "(ascii ''Bob'', hierarchy_reason) \<in> set (snd (snd (changenick demo_call))) \<and>
      bob \<notin> set (edited (fst (changenick demo_call)))"
    by simp
  from demo_accepted demo_targets a o b show ?thesis by simp
qed

text \<open>
  C8: the handler answers with one message and does nothing else (no deferral, no
  edit, no target processed) when there is no guild; when the invoking user neither
  has \<open>manage_nicknames\<close> nor is the guild owner; and when the bot's own member is
  missing from the guild or lacks \<open>manage_nicknames\<close> (the message is then the bot's one
  if the invoker passed the check before it, and the invoker's one otherwise).
\<close>

theorem changenick_fail_fast:
  "(cn_guild c = None \<longrightarrow> changenick c = ([Respond server_only_msg], [], [])) \<and>
   (cn_guild c = Some g \<and> \<not> cn_user_manage_nicknames c \<and> cn_user_id c \<noteq> g_owner_id g \<longrightarrow>
      changenick c = ([Respond invoker_needs_msg], [], [])) \<and>
   (cn_guild c = Some g \<and>
    (case get_member g (cn_bot_user_id c) of
       None \<Rightarrow> True | Some bm \<Rightarrow> \<not> m_manage_nicknames bm) \<longrightarrow>
      changenick c =
        ([Respond (if cn_user_manage_nicknames c \<or> cn_user_id c = g_owner_id g
                   then bot_needs_msg else invoker_needs_msg)], [], []))"
  by (auto simp: changenick_def split: option.splits)

theorem changenick_fail_fast_witness:
  "changenick (demo_call\<lparr>cn_guild := None\<rparr>) = ([Respond server_only_msg], [], []) \<and>
   changenick (demo_call\<lparr>cn_user_id := 11, cn_user_manage_nicknames := False\<rparr>) =
     ([Respond invoker_needs_msg], [], []) \<and>
   changenick (demo_call\<lparr>cn_bot_user_id := 98\<rparr>) = ([Respond bot_needs_msg], [], [])"
proof -
  have a: "changenick (demo_call\<lparr>cn_guild := None\<rparr>) = ([Respond server_only_msg], [], [])"
    using changenick_fail_fast [of "demo_call\<lparr>cn_guild := None\<rparr>" demo_guild]
    by simp
  have b: "changenick (demo_call\<lparr>cn_user_id := 11, cn_user_manage_nicknames := False\<rparr>) =
     ([Respond invoker_needs_msg], [], [])"
    using changenick_fail_fast
      [of "demo_call\<lparr>cn_user_id := 11, cn_user_manage_nicknames := False\<rparr>" demo_guild]
    by (simp add: demo_call_def demo_guild_def)
  have c: "changenick (demo_call\<lparr>cn_bot_user_id := 98\<rparr>) = ([Respond bot_needs_msg], [], [])"
    using changenick_fail_fast [of "demo_call\<lparr>cn_bot_user_id := 98\<rparr>" demo_guild]
    by (simp add: demo_call_def demo_guild_def get_member_def
        olga_def robo_def alice_def bob_def)
  from a b c show ?thesis by (intro conjI)
qed

lemma nick_loop_member:
  "nick_loop (c\<lparr>cn_member := a\<rparr>) g bm i ms su fa tr = nick_loop c g bm i ms su fa tr"
  by (induction ms arbitrary: i su fa tr)
    (auto simp: audit_reason_def split: call_result.splits)

text \<open>
  C10: with \<open>change_many\<close> true the \<open>member\<close> argument is ignored. Two invocations
  that differ only in it resolve the same targets and give the same result: the same
  events (hence the same edits and the same summary) and the same two lists.
\<close>

theorem member_ignored_when_many:
  assumes "cn_change_many c"
  shows "changenick (c\<lparr>cn_member := a\<rparr>) = changenick (c\<lparr>cn_member := b\<rparr>) \<and>
    (\<forall>g. resolve_targets (c\<lparr>cn_member := a\<rparr>) g = resolve_targets (c\<lparr>cn_member := b\<rparr>) g)"
proof -
  have r: "\<And>x g. resolve_targets (c\<lparr>cn_member := x\<rparr>) g = resolve_targets c g"
    using assms by (simp add: resolve_targets_def)
  have "\<And>x. changenick (c\<lparr>cn_member := x\<rparr>) = changenick c"
    by (simp add: changenick_def r nick_loop_member split: option.splits)
  with r show ?thesis by simp
qed

theorem member_ignored_when_many_witness:
  "cn_change_many demo_call \<and>
   changenick (demo_call\<lparr>cn_member := Some olga\<rparr>) =
     changenick (demo_call\<lparr>cn_member := Some alice\<rparr>) \<and>
   resolve_targets (demo_call\<lparr>cn_member := Some olga\<rparr>) demo_guild =
     resolve_targets (demo_call\<lparr>cn_member := Some alice\<rparr>) demo_guild"
proof -
  have m: "cn_change_many demo_call" by (simp add: demo_call_def)
  from member_ignored_when_many [OF m, of "Some olga" "Some alice"] m
  show ?thesis by simp
qed

end
